theory Spec2Isabelle
  imports Main "HOL-Library.Multiset"
begin

section \<open>Cards and the deck (cards.py)\<close>

text \<open>
  Conventions of the embedding. A Python method that mutates its receiver is a function
  from the state before the call to a pair: the outcome (\<open>Inl e\<close> when the exception
  \<open>e\<close> is raised, \<open>Inr v\<close> when \<open>v\<close> is returned) and the state after the call.
  The state is returned on both branches, because a raise keeps every mutation made
  before it.
\<close>

datatype error =
    TypeError | ValueError | IndexError | AttributeError
  | AssertionError | NotImplementedError | ZeroDivisionError | Exception

datatype Rank =
    Ace | Two | Three | Four | Five | Six | Seven
  | Eight | Nine | Ten | Jack | Queen | King

fun rank_value :: "Rank \<Rightarrow> int" where
  "rank_value Ace = 1"
| "rank_value Two = 2"
| "rank_value Three = 3"
| "rank_value Four = 4"
| "rank_value Five = 5"
| "rank_value Six = 6"
| "rank_value Seven = 7"
| "rank_value Eight = 8"
| "rank_value Nine = 9"
| "rank_value Ten = 10"
| "rank_value Jack = 11"
| "rank_value Queen = 12"
| "rank_value King = 13"

text \<open>\<open>Rank.__lt__\<close>: comparison of the enumeration values.\<close>

definition rank_lt :: "Rank \<Rightarrow> Rank \<Rightarrow> bool" where
  "rank_lt a b = (rank_value a < rank_value b)"

datatype Suit = Clubs | Diamonds | Hearts | Spades

text \<open>A card is compared by value (\<open>Card.__eq__\<close>), which is HOL equality here.\<close>

datatype Card = Card (suit: Suit) (rank: Rank)

definition is_stealable :: "Card \<Rightarrow> bool" where
  "is_stealable c = (rank c \<noteq> King)"

text \<open>The deque of a deck; the head of the list is the top (the left end).\<close>

type_synonym Deck = "Card list"






text \<open>\<open>Deck.deal_single\<close>: \<open>popleft\<close> raises \<open>IndexError\<close> on an empty deque.\<close>

definition deal_single :: "Deck \<Rightarrow> (error + Card) \<times> Deck" where
  "deal_single cards =
     (case cards of
        [] \<Rightarrow> (Inl IndexError, cards)
      | c # cs \<Rightarrow> (Inr c, cs))"

text \<open>
  \<open>deque.remove(value)\<close>: removes the first element equal to the value, raises
  \<open>ValueError\<close> when there is none (the deque is then as it was).
\<close>

fun deque_remove :: "'a \<Rightarrow> 'a list \<Rightarrow> error + 'a list" where
  "deque_remove x [] = Inl ValueError"
| "deque_remove x (y # ys) =
     (if y = x then Inr ys
      else (case deque_remove x ys of
              Inl e \<Rightarrow> Inl e
            | Inr zs \<Rightarrow> Inr (y # zs)))"

text \<open>
  \<open>Deck.deal_specific\<close>: every exception of the removal is caught and answered with
  \<open>None\<close>; after a removal a newly built card of the same suit and rank is returned.
\<close>

definition deal_specific :: "Suit \<Rightarrow> Rank \<Rightarrow> Deck \<Rightarrow> Card option \<times> Deck" where
  "deal_specific s r cards =
     (case deque_remove (Card s r) cards of
        Inr cs \<Rightarrow> (Some (Card s r), cs)
      | Inl e \<Rightarrow> (None, cards))"

text \<open>\<open>card in self.cards\<close>: a scan of the deque with \<open>==\<close>.\<close>

fun deque_contains :: "'a \<Rightarrow> 'a list \<Rightarrow> bool" where
  "deque_contains x [] = False"
| "deque_contains x (y # ys) = (if y = x then True else deque_contains x ys)"

text \<open>\<open>Deck.return_card\<close>: the bottom of the deck is the right end of the deque.\<close>

definition return_card :: "Card \<Rightarrow> Deck \<Rightarrow> (error + unit) \<times> Deck" where
  "return_card c cards =
     (if deque_contains c cards then (Inl ValueError, cards)
      else (Inr (), cards @ [c]))"

section \<open>Strategies and players (strategies.py, screw_your_neighbor.py)\<close>

text \<open>
  The strategy classes of strategies.py: the abstract base, the cheater villain and the
  naive first-position strategy with its \<open>lowest_to_keep\<close> value.
\<close>

datatype SYNStrat =
    SYNStrat
  | SYNStrat_cheater_villain
  | SYNStrat_naive_firstonly int

record SYNPlayer =
  playerID :: nat
  current_stack :: "int option"
  orig_card :: "Card option"
  pre_swap_card :: "Card option"
  current_card :: "Card option"
  name :: string
  strategy :: SYNStrat
  attempted_to_swap :: bool
  target_of_swap :: bool

text \<open>\<open>SYNPlayer.__init__\<close>.\<close>

definition new_player :: "SYNStrat \<Rightarrow> string \<Rightarrow> SYNPlayer" where
  "new_player strat nm =
     \<lparr>playerID = 0, current_stack = None, orig_card = None, pre_swap_card = None,
      current_card = None, name = nm, strategy = strat,
      attempted_to_swap = False, target_of_swap = False\<rparr>"

text \<open>
  The methods of a player that take a deck act on the pair of the player and that deck.
  \<open>SYNPlayer.discard\<close>:
\<close>

fun discard :: "SYNPlayer \<times> Deck \<Rightarrow> (error + bool) \<times> (SYNPlayer \<times> Deck)" where
  "discard (pl, d) =
     (case current_card pl of
        None \<Rightarrow> (Inr False, (pl, d))
      | Some c \<Rightarrow>
          (case return_card c d of
             (Inl e, d') \<Rightarrow> (Inl e, (pl, d'))
           | (Inr u, d') \<Rightarrow> (Inr True, (pl\<lparr>current_card := None\<rparr>, d'))))"

text \<open>\<open>SYNPlayer.draw(deck, replace)\<close>.\<close>

fun draw :: "bool \<Rightarrow> SYNPlayer \<times> Deck \<Rightarrow> (error + unit) \<times> (SYNPlayer \<times> Deck)" where
  "draw replace (pl, d) =
     (if current_card pl = None then
        (case deal_single d of
           (Inl e, d') \<Rightarrow> (Inl e, (pl, d'))
         | (Inr c, d') \<Rightarrow>
             (Inr (), (pl\<lparr>current_card := Some c, orig_card := Some c\<rparr>, d')))
      else if replace then
        (case discard (pl, d) of
           (Inl e, st) \<Rightarrow> (Inl e, st)
         | (Inr b, (pl', d')) \<Rightarrow>
             (case deal_single d' of
                (Inl e, d'') \<Rightarrow> (Inl e, (pl', d''))
              | (Inr c, d'') \<Rightarrow> (Inr (), (pl'\<lparr>current_card := Some c\<rparr>, d''))))
      else (Inr (), (pl, d)))"

text \<open>\<open>SYNPlayer.draw_specific\<close>.\<close>

fun draw_specific :: "Suit \<Rightarrow> Rank \<Rightarrow> SYNPlayer \<times> Deck \<Rightarrow> (error + unit) \<times> (SYNPlayer \<times> Deck)" where
  "draw_specific su r (pl, d) =
     (case (if current_card pl \<noteq> None then discard (pl, d) else (Inr False, (pl, d))) of
        (Inl e, st) \<Rightarrow> (Inl e, st)
      | (Inr b, (pl', d')) \<Rightarrow>
          (case deal_specific su r d' of
             (res, d'') \<Rightarrow> (Inr (), (pl'\<lparr>current_card := res\<rparr>, d''))))"


text \<open>\<open>SYNPlayer.can_be_stolen_from\<close>; a player without a card has no \<open>is_stealable\<close>.\<close>

definition can_be_stolen_from :: "SYNPlayer \<Rightarrow> error + bool" where
  "can_be_stolen_from pl =
     (case current_card pl of
        None \<Rightarrow> Inl AttributeError
      | Some c \<Rightarrow> Inr (is_stealable c))"

text \<open>\<open>SYNPlayer.join_game\<close> with the default stack.\<close>

definition join_game :: "SYNPlayer \<Rightarrow> SYNPlayer" where
  "join_game pl = pl\<lparr>current_stack := Some 4\<rparr>"

section \<open>The table and the game state (screw_your_neighbor.py)\<close>

text \<open>
  Players are objects: the table, the list of losers and the strategies hold references
  to them, compare them by identity (\<open>is not\<close>, and \<open>==\<close> of lists of players, since
  \<open>SYNPlayer\<close> defines no \<open>__eq__\<close>) and mutate them in place. A reference is a
  natural number and \<open>objects\<close> is the store that maps a reference to the player it
  denotes. The back-reference \<open>_game\<close> of a seated player is the state the player is
  seated in, as \<open>SYNGameState.add_player\<close> sets it; it is not a field of the model.
\<close>

type_synonym ref = nat

record SYNTable =
  num_seats :: nat
  num_players :: nat
  seats :: "ref option list"
  players :: "ref list"

record SYNGameState =
  table :: SYNTable
  round_n :: nat
  dealer_button :: nat
  deck :: Deck
  current_low :: Rank
  cur_losers :: "ref list"
  objects :: "ref \<Rightarrow> SYNPlayer"



text \<open>An assignment to a field of the player behind a reference.\<close>

definition upd_player :: "ref \<Rightarrow> (SYNPlayer \<Rightarrow> SYNPlayer) \<Rightarrow> SYNGameState \<Rightarrow> SYNGameState" where
  "upd_player p f s = s\<lparr>objects := (objects s)(p := f (objects s p))\<rparr>"

text \<open>A method of the player behind a reference, called with the deck of the game.\<close>

definition on_player ::
  "ref \<Rightarrow> (SYNPlayer \<times> Deck \<Rightarrow> 'r \<times> (SYNPlayer \<times> Deck)) \<Rightarrow> SYNGameState \<Rightarrow> 'r \<times> SYNGameState" where
  "on_player p m s =
     (case m (objects s p, deck s) of
        (r, (pl, d)) \<Rightarrow> (r, s\<lparr>objects := (objects s)(p := pl), deck := d\<rparr>))"



subsection \<open>Strategies\<close>

text \<open>
  \<open>SYNStrat_cheater_villain.run\<close>: the loop over the players of the table; \<open>pl\<close> is
  the acting player.
\<close>

fun cheater_run :: "(ref \<Rightarrow> SYNPlayer) \<Rightarrow> ref \<Rightarrow> ref list \<Rightarrow> error + bool" where
  "cheater_run objs pl [] = Inr True"
| "cheater_run objs pl (opponent # rest) =
     (if opponent \<noteq> pl then
        (case current_card (objs opponent) of
           None \<Rightarrow> Inl AttributeError
         | Some oc \<Rightarrow>
             (case current_card (objs pl) of
                None \<Rightarrow> Inl AttributeError
              | Some pc \<Rightarrow>
                  if rank_lt (rank oc) (rank pc) then Inr False
                  else cheater_run objs pl rest))
      else cheater_run objs pl rest)"

text \<open>\<open>list.index\<close>: the first position of the value, \<open>ValueError\<close> when absent.\<close>

fun list_index :: "'a \<Rightarrow> 'a list \<Rightarrow> error + nat" where
  "list_index x [] = Inl ValueError"
| "list_index x (y # ys) =
     (if y = x then Inr 0
      else (case list_index x ys of Inl e \<Rightarrow> Inl e | Inr i \<Rightarrow> Inr (Suc i)))"

text \<open>\<open>SYNPlayer.get_relative_pos\<close>; Python's \<open>%\<close> is the floored \<open>mod\<close> of \<open>int\<close>.\<close>

definition get_relative_pos :: "ref \<Rightarrow> SYNGameState \<Rightarrow> error + int" where
  "get_relative_pos p s =
     (case list_index p (players (table s)) of
        Inl e \<Rightarrow> Inl e
      | Inr my_pos \<Rightarrow>
          (let players_cnt = int (num_players (table s))
           in if players_cnt = 0 then Inl ZeroDivisionError
              else
                (let rel_pos = (int my_pos - 1 - int (dealer_button s)) mod players_cnt
                 in Inr (if rel_pos < 0 then players_cnt + rel_pos else rel_pos))))"

text \<open>\<open>naive_pass_if_low\<close>.\<close>

definition naive_pass_if_low :: "SYNPlayer \<Rightarrow> int \<Rightarrow> error + bool" where
  "naive_pass_if_low pl lowest_to_keep =
     (case current_card pl of
        None \<Rightarrow> Inl AttributeError
      | Some c \<Rightarrow> Inr (if rank_value (rank c) \<ge> lowest_to_keep then False else True))"

text \<open>\<open>strategy.run(player, gamestate)\<close>, by the class of the strategy. No strategy
  of the source mutates the state, so only the outcome is returned.\<close>

fun run :: "SYNStrat \<Rightarrow> ref \<Rightarrow> SYNGameState \<Rightarrow> error + bool" where
  "run SYNStrat p s = Inl NotImplementedError"
| "run SYNStrat_cheater_villain p s = cheater_run (objects s) p (players (table s))"
| "run (SYNStrat_naive_firstonly lowest_to_keep) p s =
     (case get_relative_pos p s of
        Inl e \<Rightarrow> Inl e
      | Inr myseat \<Rightarrow>
          if myseat = 0 then naive_pass_if_low (objects s p) lowest_to_keep
          else Inl NotImplementedError)"

text \<open>\<open>SYNPlayer.take_turn\<close>.\<close>

definition take_turn :: "ref \<Rightarrow> SYNGameState \<Rightarrow> (error + bool) \<times> SYNGameState" where
  "take_turn p s =
     (case run (strategy (objects s p)) p s of
        Inl e \<Rightarrow> (Inl e, s)
      | Inr b \<Rightarrow>
          (let s1 = upd_player p (\<lambda>pl. pl\<lparr>attempted_to_swap := b\<rparr>) s;
               s2 = upd_player p (\<lambda>pl. pl\<lparr>pre_swap_card := current_card pl\<rparr>) s1
           in (Inr b, s2)))"

text \<open>The static method \<open>SYNPlayer.swap(player1, player2)\<close>.\<close>

definition swap_players :: "ref \<Rightarrow> ref \<Rightarrow> SYNGameState \<Rightarrow> SYNGameState" where
  "swap_players player1 player2 s =
     (let temp = current_card (objects s player1);
          s1 = upd_player player1 (\<lambda>pl. pl\<lparr>current_card := current_card (objects s player2)\<rparr>) s;
          s2 = upd_player player2 (\<lambda>pl. pl\<lparr>current_card := temp\<rparr>) s1
      in upd_player player2 (\<lambda>pl. pl\<lparr>target_of_swap := True\<rparr>) s2)"

subsection \<open>The phases of a round\<close>






text \<open>
  \<open>SYNGameState.process_turns\<close>: the body of the loop for the index \<open>i\<close>, with the
  locals \<open>first_player\<close> and \<open>num_players\<close> of the method, then the loop and the method.
\<close>

definition play_turn :: "nat \<Rightarrow> nat \<Rightarrow> nat \<Rightarrow> SYNGameState \<Rightarrow> (error + unit) \<times> SYNGameState" where
  "play_turn first_player num i s =
     (let cur_seat = (first_player + i + 1) mod num;
          next_seat = (cur_seat + 1) mod num;
          cur_player = players (table s) ! cur_seat;
          next_player = players (table s) ! next_seat
      in case take_turn cur_player s of
           (Inl e, s1) \<Rightarrow> (Inl e, s1)
         | (Inr swap, s1) \<Rightarrow>
             if swap then
               if cur_seat = dealer_button s1 then on_player cur_player (draw True) s1
               else
                 (case can_be_stolen_from (objects s1 next_player) of
                    Inl e \<Rightarrow> (Inl e, s1)
                  | Inr stealable \<Rightarrow>
                      if stealable then (Inr (), swap_players cur_player next_player s1)
                      else (Inr (), s1))
             else (Inr (), s1))"

fun turns_loop :: "nat \<Rightarrow> nat \<Rightarrow> nat list \<Rightarrow> SYNGameState \<Rightarrow> (error + unit) \<times> SYNGameState" where
  "turns_loop first_player num [] s = (Inr (), s)"
| "turns_loop first_player num (i # rest) s =
     (case play_turn first_player num i s of
        (Inl e, s1) \<Rightarrow> (Inl e, s1)
      | (Inr u, s1) \<Rightarrow> turns_loop first_player num rest s1)"

definition process_turns :: "SYNGameState \<Rightarrow> (error + unit) \<times> SYNGameState" where
  "process_turns s =
     (let num = length (players (table s))
      in if num < 2 then (Inl ValueError, s)
         else turns_loop (dealer_button s) num [0..<num] s)"

text \<open>
  \<open>SYNGameState.calculate_results\<close>: the loop that finds the losers, the loop that
  looks for a stack that is not zero (it leaves \<open>tiegame\<close> true when it finds none), the
  loop that takes one unit from every loser, then the method.
\<close>

fun find_losers :: "ref list \<Rightarrow> SYNGameState \<Rightarrow> (error + unit) \<times> SYNGameState" where
  "find_losers [] s = (Inr (), s)"
| "find_losers (p # ps) s =
     (case current_card (objects s p) of
        None \<Rightarrow> (Inl AttributeError, s)
      | Some c \<Rightarrow>
          if rank c = current_low s then
            find_losers ps (s\<lparr>cur_losers := cur_losers s @ [p]\<rparr>)
          else if rank_lt (rank c) (current_low s) then
            find_losers ps (s\<lparr>current_low := rank c, cur_losers := [p]\<rparr>)
          else find_losers ps s)"

fun tie_scan :: "(ref \<Rightarrow> SYNPlayer) \<Rightarrow> ref list \<Rightarrow> bool" where
  "tie_scan objs [] = True"
| "tie_scan objs (p # ps) =
     (if current_stack (objs p) \<noteq> Some 0 then False else tie_scan objs ps)"

fun deduct :: "ref list \<Rightarrow> SYNGameState \<Rightarrow> (error + unit) \<times> SYNGameState" where
  "deduct [] s = (Inr (), s)"
| "deduct (p # ps) s =
     (case current_stack (objects s p) of
        None \<Rightarrow> (Inl TypeError, s)
      | Some k \<Rightarrow> deduct ps (upd_player p (\<lambda>pl. pl\<lparr>current_stack := Some (k - 1)\<rparr>) s))"

definition calculate_results ::
  "bool \<Rightarrow> SYNGameState \<Rightarrow> (error + Rank \<times> ref list) \<times> SYNGameState" where
  "calculate_results practice_round s =
     (case find_losers (players (table s)) (s\<lparr>current_low := King\<rparr>) of
        (Inl e, s1) \<Rightarrow> (Inl e, s1)
      | (Inr u, s1) \<Rightarrow>
          if \<not> practice_round then
            (let tiegame =
                   (if cur_losers s1 = players (table s1)
                    then tie_scan (objects s1) (cur_losers s1) else True)
             in if \<not> tiegame then
                  (case deduct (cur_losers s1) s1 of
                     (Inl e, s2) \<Rightarrow> (Inl e, s2)
                   | (Inr u, s2) \<Rightarrow> (Inr (current_low s2, cur_losers s2), s2))
                else (Inr (current_low s1, cur_losers s1), s1))
          else (Inr (current_low s1, cur_losers s1), s1))"

text \<open>\<open>SYNGameState.advance_round\<close>; \<open>%\<close> by zero raises after the increment.\<close>

definition advance_round :: "bool \<Rightarrow> SYNGameState \<Rightarrow> (error + unit) \<times> SYNGameState" where
  "advance_round practice_round s =
     (let s1 = s\<lparr>round_n := round_n s + 1\<rparr>
      in if \<not> practice_round then
           (if length (players (table s1)) = 0 then (Inl ZeroDivisionError, s1)
            else (Inr (),
                  s1\<lparr>dealer_button := (dealer_button s1 + 1) mod length (players (table s1))\<rparr>))
         else (Inr (), s1))"



text \<open>The hand of a player as a multiset: empty, or the one card held.\<close>

definition hand :: "Card option \<Rightarrow> Card multiset" where
  "hand h = (case h of None \<Rightarrow> {#} | Some c \<Rightarrow> {#c#})"

section \<open>Concrete players and states\<close>

text \<open>
  A seated player that has joined the game (\<open>join_game\<close>) and holds the card it was
  dealt, a table whose seats are all taken, and a table of three cheater villains with
  the button on the last seat; the theorems below are instantiated at them.
\<close>

definition seated :: "SYNStrat \<Rightarrow> string \<Rightarrow> Card \<Rightarrow> SYNPlayer" where
  "seated strat nm c =
     (join_game (new_player strat nm))\<lparr>orig_card := Some c, current_card := Some c\<rparr>"

definition table_of :: "ref list \<Rightarrow> SYNTable" where
  "table_of ps = \<lparr>num_seats = length ps, num_players = length ps, seats = map Some ps, players = ps\<rparr>"

definition three_handed :: "Card \<Rightarrow> Card \<Rightarrow> Card \<Rightarrow> Deck \<Rightarrow> SYNGameState" where
  "three_handed c0 c1 c2 d =
     \<lparr>table = table_of [0, 1, 2], round_n = 0, dealer_button = 2, deck = d,
      current_low = King, cur_losers = [],
      objects = (\<lambda>r. new_player SYNStrat ''dummy'')
        (0 := seated SYNStrat_cheater_villain ''villain0'' c0,
         1 := seated SYNStrat_cheater_villain ''villain1'' c1,
         2 := seated SYNStrat_cheater_villain ''villain2'' c2)\<rparr>"

definition button_demo :: SYNGameState where
  "button_demo = three_handed (Card Hearts Five) (Card Spades King) (Card Clubs Ace)
                   [Card Diamonds Nine, Card Diamonds Ten]"

text \<open>The rank of the card a player holds, for a player that holds one.\<close>

definition rank_of :: "(ref \<Rightarrow> SYNPlayer) \<Rightarrow> ref \<Rightarrow> Rank" where
  "rank_of objs p = rank (the (current_card (objs p)))"

text \<open>
  Two cheater villains heads-up with the button on the last seat, and the states at
  which the settlement is evaluated below.
\<close>

definition heads_up :: "Card \<Rightarrow> Card \<Rightarrow> Deck \<Rightarrow> SYNGameState" where
  "heads_up c0 c1 d =
     \<lparr>table = table_of [0, 1], round_n = 0, dealer_button = 1, deck = d,
      current_low = King, cur_losers = [],
      objects = (\<lambda>r. new_player SYNStrat ''dummy'')
        (0 := seated SYNStrat_cheater_villain ''villain0'' c0,
         1 := seated SYNStrat_cheater_villain ''villain1'' c1)\<rparr>"

definition settle_demo :: SYNGameState where
  "settle_demo = three_handed (Card Hearts Five) (Card Spades Two) (Card Clubs Two) []"

definition showdown_demo :: SYNGameState where
  "showdown_demo = heads_up (Card Hearts Two) (Card Spades King) []"











lemmas demo_defs = three_handed_def table_of_def seated_def join_game_def new_player_def

section \<open>Properties of the deck\<close>

lemma deque_contains_set: "deque_contains x ys = (x \<in> set ys)"
  by (induction ys) auto

lemma deque_remove_absent: "x \<notin> set ys \<Longrightarrow> deque_remove x ys = Inl ValueError"
  by (induction ys) auto

lemma deque_remove_present: "x \<in> set ys \<Longrightarrow> deque_remove x ys = Inr (remove1 x ys)"
  by (induction ys) auto

text \<open>
  C8. When no card of the given suit and rank is in the deck, \<open>deal_specific\<close> returns
  \<open>None\<close> (a value, no exception leaves the method) and the deck is as it was. When
  such a card is in the deck, the first one is removed (the deck loses exactly that one
  card, the order of the others is kept) and a card equal to it is returned.
\<close>

theorem deal_specific_spec:
  "(Card s r \<notin> set cards \<longrightarrow> deal_specific s r cards = (None, cards)) \<and>
   (Card s r \<in> set cards \<longrightarrow>
      (\<exists>cs. deal_specific s r cards = (Some (Card s r), cs) \<and>
            cs = remove1 (Card s r) cards \<and>
            mset cs + {#Card s r#} = mset cards \<and>
            Suc (length cs) = length cards))"
proof (intro conjI impI)
  assume "Card s r \<notin> set cards"
  then show "deal_specific s r cards = (None, cards)"
    by (simp add: deal_specific_def deque_remove_absent)
next
  assume m: "Card s r \<in> set cards"
  then have "deal_specific s r cards = (Some (Card s r), remove1 (Card s r) cards)"
    by (simp add: deal_specific_def deque_remove_present)
  moreover from m have "Suc (length (remove1 (Card s r) cards)) = length cards"
    by (simp add: length_remove1) (cases cards, auto)
  ultimately show "\<exists>cs. deal_specific s r cards = (Some (Card s r), cs) \<and>
            cs = remove1 (Card s r) cards \<and>
            mset cs + {#Card s r#} = mset cards \<and>
            Suc (length cs) = length cards"
    using m by simp
qed

theorem deal_specific_spec_witness:
  "Card Hearts King \<notin> set [Card Clubs Ace, Card Hearts Two] \<and>
   deal_specific Hearts King [Card Clubs Ace, Card Hearts Two]
     = (None, [Card Clubs Ace, Card Hearts Two]) \<and>
   Card Hearts Two \<in> set [Card Clubs Ace, Card Hearts Two, Card Spades Ten] \<and>
   deal_specific Hearts Two [Card Clubs Ace, Card Hearts Two, Card Spades Ten]
     = (Some (Card Hearts Two), [Card Clubs Ace, Card Spades Ten])"
  using deal_specific_spec [of Hearts King "[Card Clubs Ace, Card Hearts Two]"]
        deal_specific_spec [of Hearts Two "[Card Clubs Ace, Card Hearts Two, Card Spades Ten]"]
  by simp

text \<open>
  C9. \<open>return_card\<close> puts the card at the bottom of the deck when no equal card is in
  the deck; when an equal card is in the deck it raises \<open>ValueError\<close> (the duplicate-card
  error of the source) and the deck is as it was.
\<close>

theorem return_card_spec:
  "(c \<notin> set cards \<longrightarrow> return_card c cards = (Inr (), cards @ [c])) \<and>
   (c \<in> set cards \<longrightarrow> return_card c cards = (Inl ValueError, cards))"
  by (simp add: return_card_def deque_contains_set)

theorem return_card_spec_witness:
  "Card Hearts King \<notin> set [Card Clubs Ace, Card Hearts Two] \<and>
   return_card (Card Hearts King) [Card Clubs Ace, Card Hearts Two]
     = (Inr (), [Card Clubs Ace, Card Hearts Two, Card Hearts King]) \<and>
   Card Hearts Two \<in> set [Card Clubs Ace, Card Hearts Two] \<and>
   return_card (Card Hearts Two) [Card Clubs Ace, Card Hearts Two]
     = (Inl ValueError, [Card Clubs Ace, Card Hearts Two])"
  using return_card_spec [of "Card Hearts King" "[Card Clubs Ace, Card Hearts Two]"]
        return_card_spec [of "Card Hearts Two" "[Card Clubs Ace, Card Hearts Two]"]
  by simp

section \<open>Drawing a card\<close>

text \<open>
  C10. For a player that holds a card, \<open>draw\<close> with \<open>replace=False\<close> returns with the
  player and the deck as they were. A player that holds no card draws the top card, which
  is recorded as \<open>orig_card\<close> too (\<open>IndexError\<close> on an empty deck, nothing changed). With
  \<open>replace=True\<close> a player that holds a card puts it at the bottom of the deck and draws
  the top card, \<open>orig_card\<close> untouched (\<open>ValueError\<close> when an equal card is in the deck,
  nothing changed).
\<close>

theorem draw_spec:
  "(current_card pl = Some c \<longrightarrow> draw False (pl, d) = (Inr (), (pl, d))) \<and>
   (current_card pl = None \<longrightarrow> d = t0 # rest \<longrightarrow>
      draw replace (pl, d)
        = (Inr (), (pl\<lparr>current_card := Some t0, orig_card := Some t0\<rparr>, rest))) \<and>
   (current_card pl = None \<longrightarrow> d = [] \<longrightarrow>
      draw replace (pl, d) = (Inl IndexError, (pl, d))) \<and>
   (current_card pl = Some c \<longrightarrow> c \<notin> set d \<longrightarrow>
      draw True (pl, d)
        = (Inr (), (pl\<lparr>current_card := Some (hd (d @ [c]))\<rparr>, tl (d @ [c])))) \<and>
   (current_card pl = Some c \<longrightarrow> c \<in> set d \<longrightarrow>
      draw True (pl, d) = (Inl ValueError, (pl, d)))"
  by (cases d) (simp_all add: deal_single_def return_card_def deque_contains_set)

theorem draw_spec_witness:
  "current_card (seated SYNStrat ''p'' (Card Hearts Two)) = Some (Card Hearts Two) \<and>
   Card Hearts Two \<notin> set [Card Clubs Ace] \<and>
   draw False (seated SYNStrat ''p'' (Card Hearts Two), [Card Clubs Ace])
     = (Inr (), (seated SYNStrat ''p'' (Card Hearts Two), [Card Clubs Ace])) \<and>
   draw True (seated SYNStrat ''p'' (Card Hearts Two), [Card Clubs Ace])
     = (Inr (), ((seated SYNStrat ''p'' (Card Hearts Two))\<lparr>current_card := Some (Card Clubs Ace)\<rparr>,
                 [Card Hearts Two])) \<and>
   current_card (new_player SYNStrat ''q'') = None \<and>
   draw False (new_player SYNStrat ''q'', [Card Clubs Ace, Card Spades Ten])
     = (Inr (), ((new_player SYNStrat ''q'')
                   \<lparr>current_card := Some (Card Clubs Ace), orig_card := Some (Card Clubs Ace)\<rparr>,
                 [Card Spades Ten]))"
  using draw_spec [of "seated SYNStrat ''p'' (Card Hearts Two)" "Card Hearts Two" "[Card Clubs Ace]"]
        draw_spec [of "new_player SYNStrat ''q''" _ "[Card Clubs Ace, Card Spades Ten]"
                      "Card Clubs Ace" "[Card Spades Ten]" False]
  by (simp add: seated_def join_game_def new_player_def)

section \<open>Advancing the round\<close>

text \<open>
  C6. \<open>advance_round\<close> adds one to the round counter in every case, also when it raises.
  After a practice round nothing else changes. After a round that is not a practice
  round the button becomes \<open>(button + 1) mod n\<close>, where \<open>n\<close> is the number of seated
  players (the seats of the turn order): one seat further, and back to seat 0 from the
  last seat. With no seated player that \<open>%\<close> raises \<open>ZeroDivisionError\<close>.
\<close>

theorem advance_round_spec:
  "round_n (snd (advance_round practice s)) = round_n s + 1 \<and>
   (practice \<longrightarrow> advance_round practice s = (Inr (), s\<lparr>round_n := round_n s + 1\<rparr>)) \<and>
   (\<not> practice \<longrightarrow> players (table s) \<noteq> [] \<longrightarrow>
      advance_round practice s
        = (Inr (), s\<lparr>round_n := round_n s + 1,
                     dealer_button := (dealer_button s + 1) mod length (players (table s))\<rparr>)) \<and>
   (\<not> practice \<longrightarrow> dealer_button s < length (players (table s)) \<longrightarrow>
      dealer_button (snd (advance_round practice s))
        = (if dealer_button s + 1 = length (players (table s)) then 0 else dealer_button s + 1)) \<and>
   (\<not> practice \<longrightarrow> players (table s) = [] \<longrightarrow>
      advance_round practice s = (Inl ZeroDivisionError, s\<lparr>round_n := round_n s + 1\<rparr>))"
  by (auto simp: advance_round_def Let_def)

theorem advance_round_spec_witness:
  "players (table button_demo) \<noteq> [] \<and>
   dealer_button button_demo < length (players (table button_demo)) \<and>
   advance_round True button_demo = (Inr (), button_demo\<lparr>round_n := 1\<rparr>) \<and>
   advance_round False button_demo = (Inr (), button_demo\<lparr>round_n := 1, dealer_button := 0\<rparr>) \<and>
   dealer_button (snd (advance_round False button_demo)) = 0"
  using advance_round_spec [of True button_demo] advance_round_spec [of False button_demo]
  by (simp add: button_demo_def demo_defs)

section \<open>A turn\<close>

lemma take_turn_swap:
  "run (strategy (objects s p)) p s = Inr b \<Longrightarrow>
   take_turn p s =
     (Inr b, upd_player p (\<lambda>pl. pl\<lparr>attempted_to_swap := b, pre_swap_card := current_card pl\<rparr>) s)"
  by (simp add: take_turn_def upd_player_def Let_def)

text \<open>
  C5. In the body of the loop of \<open>process_turns\<close>, when the acting seat is not the
  button seat, the strategy of the acting player asks for a swap and the next player in
  turn order holds a King: the turn returns, no player's held card changes, the deck is
  as it was, the \<open>target_of_swap\<close> flag of the next player is as it was, the
  \<open>attempted_to_swap\<close> flag of the acting player is true and its \<open>pre_swap_card\<close> is the
  card it holds. Nothing else of the state changes.
\<close>

theorem king_neighbor_swap_noop:
  assumes seat: "cur_seat = (first_player + i + 1) mod num"
    and nonbutton: "cur_seat \<noteq> dealer_button s"
    and cur: "cur_player = players (table s) ! cur_seat"
    and nxt: "next_player = players (table s) ! ((cur_seat + 1) mod num)"
    and wants: "run (strategy (objects s cur_player)) cur_player s = Inr True"
    and king: "current_card (objects s next_player) = Some c" "rank c = King"
    and res: "s' = snd (play_turn first_player num i s)"
  shows "play_turn first_player num i s
           = (Inr (), upd_player cur_player
                 (\<lambda>pl. pl\<lparr>attempted_to_swap := True, pre_swap_card := current_card pl\<rparr>) s) \<and>
         (\<forall>q. current_card (objects s' q) = current_card (objects s q)) \<and>
         target_of_swap (objects s' next_player) = target_of_swap (objects s next_player) \<and>
         attempted_to_swap (objects s' cur_player) = True \<and>
         pre_swap_card (objects s' cur_player) = current_card (objects s cur_player) \<and>
         deck s' = deck s"
proof -
  let ?s1 = "upd_player cur_player
                 (\<lambda>pl. pl\<lparr>attempted_to_swap := True, pre_swap_card := current_card pl\<rparr>) s"
  have tt: "take_turn cur_player s = (Inr True, ?s1)"
    using wants by (rule take_turn_swap)
  have nb: "cur_seat \<noteq> dealer_button ?s1"
    using nonbutton by (simp add: upd_player_def)
  have steal: "can_be_stolen_from (objects ?s1 next_player) = Inr False"
    using king by (auto simp: can_be_stolen_from_def is_stealable_def upd_player_def)
  have pt: "play_turn first_player num i s = (Inr (), ?s1)"
    unfolding play_turn_def Let_def seat [symmetric] cur [symmetric] nxt [symmetric]
    using tt nb steal by simp
  then have s': "s' = ?s1"
    using res by simp
  show ?thesis
    unfolding s' using pt by (simp add: upd_player_def)
qed

theorem king_neighbor_swap_noop_witness:
  "(0::nat) = (2 + 0 + 1) mod 3 \<and>
   0 \<noteq> dealer_button (three_handed (Card Hearts Two) (Card Spades King) (Card Clubs Five) [Card Diamonds Nine]) \<and>
   run SYNStrat_cheater_villain 0
      (three_handed (Card Hearts Two) (Card Spades King) (Card Clubs Five) [Card Diamonds Nine]) = Inr True \<and>
   play_turn 2 3 0 (three_handed (Card Hearts Two) (Card Spades King) (Card Clubs Five) [Card Diamonds Nine])
     = (Inr (), upd_player 0 (\<lambda>pl. pl\<lparr>attempted_to_swap := True, pre_swap_card := Some (Card Hearts Two)\<rparr>)
          (three_handed (Card Hearts Two) (Card Spades King) (Card Clubs Five) [Card Diamonds Nine]))"
  using king_neighbor_swap_noop [of 0 2 0 3
      "three_handed (Card Hearts Two) (Card Spades King) (Card Clubs Five) [Card Diamonds Nine]"
      0 1 "Card Spades King"]
  by (simp add: demo_defs rank_lt_def upd_player_def)







lemma turns_loop_append:
  "turns_loop first_player num (js @ ks) s =
     (case turns_loop first_player num js s of
        (Inl e, s1) \<Rightarrow> (Inl e, s1)
      | (Inr u, s1) \<Rightarrow> turns_loop first_player num ks s1)"
  by (induction js arbitrary: s) (auto split: prod.splits sum.splits)

lemma turns_loop_single:
  "turns_loop first_player num [j] s = play_turn first_player num j s"
  by (auto split: prod.splits sum.splits)

lemma process_turns_last:
  assumes "2 \<le> length (players (table s))"
  shows "process_turns s =
     (case turns_loop (dealer_button s) (length (players (table s)))
             [0..<length (players (table s)) - 1] s of
        (Inl e, s1) \<Rightarrow> (Inl e, s1)
      | (Inr u, s1) \<Rightarrow>
          play_turn (dealer_button s) (length (players (table s)))
             (length (players (table s)) - 1) s1)"
proof -
  let ?n = "length (players (table s))"
  have "[0..<?n] = [0..<?n - 1] @ [?n - 1]"
  proof -
    from assms obtain m where m: "?n = Suc m" by (cases ?n) auto
    show ?thesis unfolding m by simp
  qed
  then have "turns_loop (dealer_button s) ?n [0..<?n] s =
             turns_loop (dealer_button s) ?n ([0..<?n - 1] @ [?n - 1]) s"
    by simp
  then show ?thesis
    using assms unfolding process_turns_def Let_def turns_loop_append
    by (simp add: turns_loop_single del: turns_loop.simps split: prod.splits sum.splits)
qed

lemma button_seat_last:
  assumes "(b::nat) < n"
  shows "(b + (n - 1) + 1) mod n = b" and "j < n - 1 \<Longrightarrow> (b + j + 1) mod n \<noteq> b"
proof -
  have "b + (n - 1) + 1 = b + n"
    using assms by arith
  then show "(b + (n - 1) + 1) mod n = b"
    using assms by simp
  assume j: "j < n - 1"
  show "(b + j + 1) mod n \<noteq> b"
  proof (cases "b + j + 1 < n")
    case True
    then show ?thesis by simp
  next
    case False
    then have "(b + j + 1) mod n = b + j + 1 - n"
      using assms j by (simp add: mod_if)
    then show ?thesis using assms j False by simp
  qed
qed


text \<open>
  C7. In the body of the loop of \<open>process_turns\<close>, when the acting seat is the button
  seat and the strategy of the acting player asks for a swap, whatever the strategy is,
  the turn is \<open>draw\<close> with \<open>replace=True\<close> on the deck of the game: no other player is
  touched, and a held card that is not in the deck goes to the bottom of the deck and
  the top card is drawn. With at least two players and the button on a seat of the
  table, the last pass of the loop of \<open>process_turns\<close> is the turn of the button seat
  and no earlier pass is.
\<close>

theorem button_swaps_with_deck:
  assumes seat: "cur_seat = (first_player + i + 1) mod num"
    and button: "cur_seat = dealer_button s"
    and cur: "cur_player = players (table s) ! cur_seat"
    and wants: "run (strategy (objects s cur_player)) cur_player s = Inr True"
    and res: "s' = snd (play_turn first_player num i s)"
  shows "play_turn first_player num i s
           = on_player cur_player (draw True)
               (upd_player cur_player
                  (\<lambda>pl. pl\<lparr>attempted_to_swap := True, pre_swap_card := current_card pl\<rparr>) s) \<and>
         (\<forall>q. q \<noteq> cur_player \<longrightarrow> objects s' q = objects s q) \<and>
         (\<forall>c. current_card (objects s cur_player) = Some c \<longrightarrow> c \<notin> set (deck s) \<longrightarrow>
              fst (play_turn first_player num i s) = Inr () \<and>
              current_card (objects s' cur_player) = Some (hd (deck s @ [c])) \<and>
              deck s' = tl (deck s @ [c])) \<and>
         (2 \<le> length (players (table g)) \<longrightarrow> dealer_button g < length (players (table g)) \<longrightarrow>
            process_turns g =
              (case turns_loop (dealer_button g) (length (players (table g)))
                      [0..<length (players (table g)) - 1] g of
                 (Inl e, g1) \<Rightarrow> (Inl e, g1)
               | (Inr u, g1) \<Rightarrow>
                   play_turn (dealer_button g) (length (players (table g)))
                      (length (players (table g)) - 1) g1) \<and>
            (dealer_button g + (length (players (table g)) - 1) + 1) mod length (players (table g))
              = dealer_button g \<and>
            (\<forall>j < length (players (table g)) - 1.
               (dealer_button g + j + 1) mod length (players (table g)) \<noteq> dealer_button g))"
proof -
  let ?s1 = "upd_player cur_player
                 (\<lambda>pl. pl\<lparr>attempted_to_swap := True, pre_swap_card := current_card pl\<rparr>) s"
  have tt: "take_turn cur_player s = (Inr True, ?s1)"
    using wants by (rule take_turn_swap)
  have b1: "cur_seat = dealer_button ?s1"
    using button by (simp add: upd_player_def)
  have pt: "play_turn first_player num i s = on_player cur_player (draw True) ?s1"
    unfolding play_turn_def Let_def seat [symmetric] cur [symmetric]
    using tt b1 by simp
  have others: "\<forall>q. q \<noteq> cur_player \<longrightarrow> objects s' q = objects s q"
    unfolding res pt by (auto simp: on_player_def upd_player_def split: prod.splits)
  have deckswap: "\<forall>c. current_card (objects s cur_player) = Some c \<longrightarrow> c \<notin> set (deck s) \<longrightarrow>
              fst (play_turn first_player num i s) = Inr () \<and>
              current_card (objects s' cur_player) = Some (hd (deck s @ [c])) \<and>
              deck s' = tl (deck s @ [c])"
    unfolding res pt
    by (auto simp: on_player_def upd_player_def return_card_def deque_contains_set
        deal_single_def split: list.splits)
  show ?thesis
    using pt others deckswap process_turns_last [of g] button_seat_last [of "dealer_button g" "length (players (table g))"]
    by simp
qed

theorem button_swaps_with_deck_witness:
  "(2::nat) = (2 + 2 + 1) mod 3 \<and>
   2 = dealer_button button_demo \<and>
   2 = players (table button_demo) ! 2 \<and>
   run (strategy (objects button_demo 2)) 2 button_demo = Inr True \<and>
   current_card (objects button_demo 2) = Some (Card Clubs Ace) \<and>
   Card Clubs Ace \<notin> set (deck button_demo) \<and>
   fst (play_turn 2 3 2 button_demo) = Inr () \<and>
   current_card (objects (snd (play_turn 2 3 2 button_demo)) 2) = Some (Card Diamonds Nine) \<and>
   deck (snd (play_turn 2 3 2 button_demo)) = [Card Diamonds Ten, Card Clubs Ace] \<and>
   objects (snd (play_turn 2 3 2 button_demo)) 0 = objects button_demo 0 \<and>
   objects (snd (play_turn 2 3 2 button_demo)) 1 = objects button_demo 1 \<and>
   2 \<le> length (players (table button_demo)) \<and>
   dealer_button button_demo < length (players (table button_demo)) \<and>
   (dealer_button button_demo + (length (players (table button_demo)) - 1) + 1)
      mod length (players (table button_demo)) = dealer_button button_demo"
proof -
  have h1: "(2::nat) = (2 + 2 + 1) mod 3"
    by simp
  have h2: "2 = dealer_button button_demo"
    by (simp add: button_demo_def demo_defs)
  have h3: "2 = players (table button_demo) ! 2"
    by (simp add: button_demo_def demo_defs)
  have h4: "run (strategy (objects button_demo 2)) 2 button_demo = Inr True"
    by (simp add: button_demo_def demo_defs rank_lt_def)
  have c1: "current_card (objects button_demo 2) = Some (Card Clubs Ace)"
    by (simp add: button_demo_def demo_defs)
  have c2: "Card Clubs Ace \<notin> set (deck button_demo)"
    by (simp add: button_demo_def demo_defs)
  have d: "deck button_demo = [Card Diamonds Nine, Card Diamonds Ten]"
    by (simp add: button_demo_def demo_defs)
  have n: "2 \<le> length (players (table button_demo))"
      "dealer_button button_demo < length (players (table button_demo))"
    by (simp_all add: button_demo_def demo_defs)
  note th = button_swaps_with_deck [OF h1 h2 h3 h4 refl, of button_demo]
  from th have others: "\<forall>q. q \<noteq> 2 \<longrightarrow>
      objects (snd (play_turn 2 3 2 button_demo)) q = objects button_demo q"
    by (rule conjunct2 [THEN conjunct1])
  from th c1 c2 have mine: "fst (play_turn 2 3 2 button_demo) = Inr () \<and>
      current_card (objects (snd (play_turn 2 3 2 button_demo)) 2)
        = Some (hd (deck button_demo @ [Card Clubs Ace])) \<and>
      deck (snd (play_turn 2 3 2 button_demo)) = tl (deck button_demo @ [Card Clubs Ace])"
    by blast
  from th n have last: "(dealer_button button_demo + (length (players (table button_demo)) - 1) + 1)
      mod length (players (table button_demo)) = dealer_button button_demo"
    by blast
  from others have o0: "objects (snd (play_turn 2 3 2 button_demo)) 0 = objects button_demo 0"
    and o1: "objects (snd (play_turn 2 3 2 button_demo)) 1 = objects button_demo 1"
    by simp_all
  show ?thesis
    using h1 h2 h3 h4 c1 c2 mine [unfolded d] o0 o1 n last by simp
qed


section \<open>The cheater villain\<close>

lemma cheater_run_holds_cards:
  assumes "\<forall>q\<in>set ps. current_card (objs q) \<noteq> None" and "current_card (objs pl) \<noteq> None"
  shows "cheater_run objs pl ps =
           Inr (\<not> (\<exists>q\<in>set ps. q \<noteq> pl \<and> rank_lt (rank_of objs q) (rank_of objs pl)))"
  using assms by (induction ps) (auto simp: rank_of_def)

text \<open>
  C2, as the code has it. In a state where every seated player and the acting player
  hold a card, the cheater villain returns false (hold) when some other seated player
  holds a card of strictly lower rank than the acting player's, and true (swap)
  otherwise, that is when no other seated player is strictly lower: the player that
  holds the lowest card swaps.
\<close>

theorem cheater_swaps_unless_someone_lower:
  assumes "\<forall>q\<in>set (players (table s)). current_card (objects s q) \<noteq> None"
    and "current_card (objects s p) \<noteq> None"
  shows "run SYNStrat_cheater_villain p s =
           Inr (\<not> (\<exists>q\<in>set (players (table s)).
                      q \<noteq> p \<and> rank_lt (rank_of (objects s) q) (rank_of (objects s) p)))"
  using assms by (simp add: cheater_run_holds_cards)

theorem cheater_swaps_unless_someone_lower_witness:
  "current_card (objects button_demo 0) \<noteq> None \<and>
   current_card (objects button_demo 1) \<noteq> None \<and>
   current_card (objects button_demo 2) \<noteq> None \<and>
   players (table button_demo) = [0, 1, 2] \<and>
   run SYNStrat_cheater_villain 0 button_demo = Inr False \<and>
   run SYNStrat_cheater_villain 2 button_demo = Inr True"
  using cheater_swaps_unless_someone_lower [of button_demo 0]
        cheater_swaps_unless_someone_lower [of button_demo 2]
  by (simp add: button_demo_def demo_defs rank_of_def rank_lt_def)

text \<open>
  C2, as the claim states it, fails heads-up with a Two against a King: the player with
  the Two is strictly lower than every other player and the strategy returns true, and
  the player with the King is not and the strategy returns false.
\<close>

theorem cheater_lowest_card_counterexample:
  "players (table (heads_up (Card Hearts Two) (Card Spades King) [])) = [0, 1] \<and>
   current_card (objects (heads_up (Card Hearts Two) (Card Spades King) []) 0) = Some (Card Hearts Two) \<and>
   current_card (objects (heads_up (Card Hearts Two) (Card Spades King) []) 1) = Some (Card Spades King) \<and>
   rank_lt (rank (Card Hearts Two)) (rank (Card Spades King)) \<and>
   run SYNStrat_cheater_villain 0 (heads_up (Card Hearts Two) (Card Spades King) []) = Inr True \<and>
   run SYNStrat_cheater_villain 1 (heads_up (Card Hearts Two) (Card Spades King) []) = Inr False"
  by (simp add: heads_up_def demo_defs rank_lt_def)


section \<open>The settlement\<close>

lemma rank_value_inj: "rank_value a = rank_value b \<Longrightarrow> a = b"
  by (cases a; cases b; simp)

lemma find_losers_result:
  assumes "\<forall>p\<in>set ps. current_card (objects s p) \<noteq> None"
  shows "\<exists>low losers.
           find_losers ps s = (Inr (), s\<lparr>current_low := low, cur_losers := losers\<rparr>) \<and>
           rank_value low \<le> rank_value (current_low s) \<and>
           (\<forall>p\<in>set ps. rank_value low \<le> rank_value (rank_of (objects s) p)) \<and>
           (low = current_low s \<or> (\<exists>p\<in>set ps. low = rank_of (objects s) p)) \<and>
           losers = (if low = current_low s then cur_losers s else [])
                      @ filter (\<lambda>p. rank_of (objects s) p = low) ps"
  using assms
proof (induction ps arbitrary: s)
  case Nil
  have "s\<lparr>current_low := current_low s, cur_losers := cur_losers s\<rparr> = s"
    by simp
  then show ?case
    by (intro exI [of _ "current_low s"] exI [of _ "cur_losers s"]) simp
next
  case (Cons p ps)
  then obtain c where c: "current_card (objects s p) = Some c"
    by auto
  then have rk: "rank_of (objects s) p = rank c"
    by (simp add: rank_of_def)
  let ?s1 = "if rank c = current_low s then s\<lparr>cur_losers := cur_losers s @ [p]\<rparr>
             else if rank_lt (rank c) (current_low s)
                  then s\<lparr>current_low := rank c, cur_losers := [p]\<rparr> else s"
  have step: "find_losers (p # ps) s = find_losers ps ?s1"
    using c by simp
  have objs: "objects ?s1 = objects s"
    by simp
  have "\<forall>q\<in>set ps. current_card (objects ?s1 q) \<noteq> None"
    using Cons.prems by simp
  from Cons.IH [OF this] obtain low losers where
    fl: "find_losers ps ?s1 = (Inr (), ?s1\<lparr>current_low := low, cur_losers := losers\<rparr>)"
    and le: "rank_value low \<le> rank_value (current_low ?s1)"
    and lb: "\<forall>q\<in>set ps. rank_value low \<le> rank_value (rank_of (objects s) q)"
    and att: "low = current_low ?s1 \<or> (\<exists>q\<in>set ps. low = rank_of (objects s) q)"
    and ls: "losers = (if low = current_low ?s1 then cur_losers ?s1 else [])
                      @ filter (\<lambda>q. rank_of (objects s) q = low) ps"
    unfolding objs by blast
  note inj = rank_value_inj
  have st: "?s1\<lparr>current_low := low, cur_losers := losers\<rparr>
            = s\<lparr>current_low := low, cur_losers := losers\<rparr>"
    by simp
  show ?case
  proof (intro exI [of _ low] exI [of _ losers] conjI)
    show "find_losers (p # ps) s = (Inr (), s\<lparr>current_low := low, cur_losers := losers\<rparr>)"
      using step fl st by simp
    show "rank_value low \<le> rank_value (current_low s)"
      using le by (auto simp: rank_lt_def split: if_splits)
    show "\<forall>q\<in>set (p # ps). rank_value low \<le> rank_value (rank_of (objects s) q)"
      using le lb rk by (auto simp: rank_lt_def split: if_splits)
    show "low = current_low s \<or> (\<exists>q\<in>set (p # ps). low = rank_of (objects s) q)"
      using att rk by (auto split: if_splits)
    show "losers = (if low = current_low s then cur_losers s else [])
                      @ filter (\<lambda>q. rank_of (objects s) q = low) (p # ps)"
      using ls le rk by (auto simp: rank_lt_def split: if_splits dest: inj)
  qed
qed


lemma rank_value_le_King: "rank_value r \<le> rank_value King"
  by (cases r) simp_all

lemma deduct_frame:
  "deduct ps s = (r, s') \<Longrightarrow>
   table s' = table s \<and> cur_losers s' = cur_losers s \<and> current_low s' = current_low s \<and>
   deck s' = deck s \<and> round_n s' = round_n s \<and> dealer_button s' = dealer_button s \<and>
   (\<forall>q. current_card (objects s' q) = current_card (objects s q)) \<and>
   (\<forall>q. q \<notin> set ps \<longrightarrow> objects s' q = objects s q)"
proof (induction ps arbitrary: s)
  case Nil
  then show ?case by simp
next
  case (Cons p ps)
  show ?case
  proof (cases "current_stack (objects s p)")
    case None
    with Cons.prems show ?thesis by simp
  next
    case (Some k)
    let ?s1 = "upd_player p (\<lambda>pl. pl\<lparr>current_stack := Some (k - 1)\<rparr>) s"
    from Some Cons.prems have "deduct ps ?s1 = (r, s')"
      by simp
    from Cons.IH [OF this] show ?thesis
      by (auto simp: upd_player_def split: if_splits)
  qed
qed

lemma deduct_returns:
  "\<forall>p\<in>set ps. current_stack (objects s p) \<noteq> None \<Longrightarrow> fst (deduct ps s) = Inr ()"
proof (induction ps arbitrary: s)
  case Nil
  then show ?case by simp
next
  case (Cons p ps)
  then obtain k where k: "current_stack (objects s p) = Some k"
    by auto
  let ?s1 = "upd_player p (\<lambda>pl. pl\<lparr>current_stack := Some (k - 1)\<rparr>) s"
  have "\<forall>q\<in>set ps. current_stack (objects ?s1 q) \<noteq> None"
    using Cons.prems by (simp add: upd_player_def)
  from Cons.IH [OF this] k show ?case
    by simp
qed

lemma deduct_distinct:
  "distinct ps \<Longrightarrow> \<forall>p\<in>set ps. current_stack (objects s p) = Some (k p) \<Longrightarrow>
   deduct ps s = (r, s') \<Longrightarrow>
   r = Inr () \<and> (\<forall>p\<in>set ps. current_stack (objects s' p) = Some (k p - 1))"
proof (induction ps arbitrary: s)
  case Nil
  then show ?case by simp
next
  case (Cons p ps)
  let ?s1 = "upd_player p (\<lambda>pl. pl\<lparr>current_stack := Some (k p - 1)\<rparr>) s"
  have kp: "current_stack (objects s p) = Some (k p)"
    using Cons.prems by simp
  with Cons.prems have d: "deduct ps ?s1 = (r, s')"
    by simp
  have "\<forall>q\<in>set ps. current_stack (objects ?s1 q) = Some (k q)"
    using Cons.prems by (auto simp: upd_player_def)
  with Cons.IH [OF _ _ d] Cons.prems
  have ih: "r = Inr () \<and> (\<forall>q\<in>set ps. current_stack (objects s' q) = Some (k q - 1))"
    by simp
  have "p \<notin> set ps"
    using Cons.prems by simp
  with deduct_frame [OF d] have "objects s' p = objects ?s1 p"
    by simp
  then have "current_stack (objects s' p) = Some (k p - 1)"
    by (simp add: upd_player_def)
  with ih show ?case by simp
qed

lemma calculate_results_losers:
  assumes nonempty: "players (table s) \<noteq> []"
    and cards: "\<forall>p\<in>set (players (table s)). current_card (objects s p) \<noteq> None"
    and fresh: "cur_losers s = []"
  shows "\<exists>low.
      find_losers (players (table s)) (s\<lparr>current_low := King\<rparr>)
        = (Inr (), s\<lparr>current_low := low,
               cur_losers := filter (\<lambda>p. rank_of (objects s) p = low) (players (table s))\<rparr>) \<and>
      (\<forall>p\<in>set (players (table s)). rank_value low \<le> rank_value (rank_of (objects s) p)) \<and>
      (\<exists>p\<in>set (players (table s)). low = rank_of (objects s) p)"
proof -
  let ?s0 = "s\<lparr>current_low := King\<rparr>"
  have "\<forall>p\<in>set (players (table s)). current_card (objects ?s0 p) \<noteq> None"
    using cards by simp
  from find_losers_result [OF this] obtain low losers where
    fl0: "find_losers (players (table s)) ?s0
            = (Inr (), ?s0\<lparr>current_low := low, cur_losers := losers\<rparr>)"
    and lb0: "\<forall>p\<in>set (players (table s)). rank_value low \<le> rank_value (rank_of (objects ?s0) p)"
    and att0: "low = current_low ?s0 \<or> (\<exists>p\<in>set (players (table s)). low = rank_of (objects ?s0) p)"
    and ls0: "losers = (if low = current_low ?s0 then cur_losers ?s0 else [])
                      @ filter (\<lambda>p. rank_of (objects ?s0) p = low) (players (table s))"
    by blast
  have fl: "find_losers (players (table s)) ?s0 = (Inr (), s\<lparr>current_low := low, cur_losers := losers\<rparr>)"
    using fl0 by simp
  have lb: "\<forall>p\<in>set (players (table s)). rank_value low \<le> rank_value (rank_of (objects s) p)"
    using lb0 by simp
  have att: "low = King \<or> (\<exists>p\<in>set (players (table s)). low = rank_of (objects s) p)"
    using att0 by simp
  have ls: "losers = (if low = King then cur_losers s else [])
                      @ filter (\<lambda>p. rank_of (objects s) p = low) (players (table s))"
    using ls0 by simp
  from nonempty obtain p0 where p0: "p0 \<in> set (players (table s))"
    by (cases "players (table s)") auto
  have att': "\<exists>p\<in>set (players (table s)). low = rank_of (objects s) p"
  proof (cases "low = King")
    case True
    with lb p0 have "rank_value King \<le> rank_value (rank_of (objects s) p0)"
      by simp
    with rank_value_le_King [of "rank_of (objects s) p0"]
    have "rank_value (rank_of (objects s) p0) = rank_value King"
      by simp
    then have "rank_of (objects s) p0 = King"
      by (rule rank_value_inj)
    with True p0 show ?thesis by (intro bexI [of _ p0]) simp_all
  next
    case False
    with att show ?thesis by simp
  qed
  have "losers = filter (\<lambda>p. rank_of (objects s) p = low) (players (table s))"
    using ls fresh by simp
  with fl lb att' show ?thesis
    by (intro exI [of _ low]) simp
qed


lemma calculate_results_after_scan:
  assumes fl: "find_losers (players (table s)) (s\<lparr>current_low := King\<rparr>) = (Inr (), s1)"
    and res: "calculate_results practice s = (r, s')"
  shows "current_low s' = current_low s1 \<and> cur_losers s' = cur_losers s1 \<and>
         table s' = table s1 \<and> deck s' = deck s1 \<and> round_n s' = round_n s1 \<and>
         dealer_button s' = dealer_button s1 \<and>
         (\<forall>q. current_card (objects s' q) = current_card (objects s1 q)) \<and>
         (practice \<or> (\<forall>p\<in>set (cur_losers s1). current_stack (objects s1 p) \<noteq> None)
            \<longrightarrow> r = Inr (current_low s1, cur_losers s1))"
proof (cases "\<not> practice \<and> cur_losers s1 = players (table s1)
                \<and> \<not> tie_scan (objects s1) (cur_losers s1)")
  case False
  then have "calculate_results practice s = (Inr (current_low s1, cur_losers s1), s1)"
    using fl by (auto simp: calculate_results_def)
  with res have "r = Inr (current_low s1, cur_losers s1)" "s' = s1"
    by auto
  then show ?thesis by simp
next
  case True
  obtain r2 s2 where d: "deduct (cur_losers s1) s1 = (r2, s2)"
    by (cases "deduct (cur_losers s1) s1")
  note fr = deduct_frame [OF d]
  from True have np: "\<not> practice"
    by blast
  from True have eq: "players (table s1) = cur_losers s1"
    by auto
  from True have nt: "\<not> tie_scan (objects s1) (cur_losers s1)"
    by blast
  have cr: "calculate_results practice s =
          (case r2 of Inl e \<Rightarrow> (Inl e, s2) | Inr u \<Rightarrow> (Inr (current_low s2, cur_losers s2), s2))"
    using np eq nt fl d by (simp add: calculate_results_def split: sum.splits)
  have s': "s' = s2"
    using cr res by (cases r2) auto
  have "(\<forall>p\<in>set (cur_losers s1). current_stack (objects s1 p) \<noteq> None)
          \<longrightarrow> r = Inr (current_low s1, cur_losers s1)"
  proof
    assume "\<forall>p\<in>set (cur_losers s1). current_stack (objects s1 p) \<noteq> None"
    from deduct_returns [OF this] d have "r2 = Inr ()"
      by simp
    with cr res fr show "r = Inr (current_low s1, cur_losers s1)"
      by simp
  qed
  with True fr s' show ?thesis
    by simp
qed

text \<open>
  C3. In a round (the list of losers is empty, as \<open>start_round\<close> leaves it) with at
  least one seated player, every seated player holding a card, the list of losers after
  \<open>calculate_results\<close> is the list of the seated players, in seating order, whose card
  has the lowest rank among the held cards: every player tied at that rank is in it and
  no other player is. \<open>current_low\<close> is that rank, and both are returned when the
  method returns (it does in a practice round, and when every stack is a number).
\<close>

theorem losers_hold_minimum_rank:
  assumes nonempty: "players (table s) \<noteq> []"
    and cards: "\<forall>p\<in>set (players (table s)). current_card (objects s p) \<noteq> None"
    and fresh: "cur_losers s = []"
    and res: "calculate_results practice s = (r, s')"
  shows "rank_value (current_low s')
           = Min (rank_value ` rank_of (objects s) ` set (players (table s))) \<and>
         cur_losers s'
           = filter (\<lambda>p. rank_of (objects s) p = current_low s') (players (table s)) \<and>
         set (cur_losers s')
           = {p \<in> set (players (table s)).
                \<forall>q\<in>set (players (table s)).
                  rank_value (rank_of (objects s) p) \<le> rank_value (rank_of (objects s) q)} \<and>
         (practice \<or> (\<forall>p\<in>set (players (table s)). current_stack (objects s p) \<noteq> None)
            \<longrightarrow> r = Inr (current_low s', cur_losers s'))"
proof -
  let ?ps = "players (table s)"
  let ?rk = "\<lambda>p. rank_value (rank_of (objects s) p)"
  from calculate_results_losers [OF nonempty cards fresh] obtain low where
    fl: "find_losers ?ps (s\<lparr>current_low := King\<rparr>)
        = (Inr (), s\<lparr>current_low := low,
               cur_losers := filter (\<lambda>p. rank_of (objects s) p = low) ?ps\<rparr>)"
    and lb: "\<forall>p\<in>set ?ps. rank_value low \<le> ?rk p"
    and att: "\<exists>p\<in>set ?ps. low = rank_of (objects s) p"
    by blast
  let ?s1 = "s\<lparr>current_low := low, cur_losers := filter (\<lambda>p. rank_of (objects s) p = low) ?ps\<rparr>"
  note after = calculate_results_after_scan [OF fl res]
  have low: "current_low s' = low"
    using after by simp
  have losers: "cur_losers s' = filter (\<lambda>p. rank_of (objects s) p = low) ?ps"
    using after by simp
  have "Min (rank_value ` rank_of (objects s) ` set ?ps) = rank_value low"
  proof (rule Min_eqI)
    show "finite (rank_value ` rank_of (objects s) ` set ?ps)"
      by simp
    show "\<And>y. y \<in> rank_value ` rank_of (objects s) ` set ?ps \<Longrightarrow> rank_value low \<le> y"
      using lb by auto
    show "rank_value low \<in> rank_value ` rank_of (objects s) ` set ?ps"
      using att by auto
  qed
  then have c1: "rank_value (current_low s') = Min (rank_value ` rank_of (objects s) ` set ?ps)"
    using low by simp
  have c2: "cur_losers s' = filter (\<lambda>p. rank_of (objects s) p = current_low s') ?ps"
    using low losers by simp
  have c3: "set (cur_losers s')
           = {p \<in> set ?ps. \<forall>q\<in>set ?ps. ?rk p \<le> ?rk q}"
  proof (intro set_eqI iffI)
    fix p assume "p \<in> set (cur_losers s')"
    then have "p \<in> set ?ps" "rank_of (objects s) p = low"
      using losers by simp_all
    with lb show "p \<in> {p \<in> set ?ps. \<forall>q\<in>set ?ps. ?rk p \<le> ?rk q}"
      by simp
  next
    fix p assume "p \<in> {p \<in> set ?ps. \<forall>q\<in>set ?ps. ?rk p \<le> ?rk q}"
    then have p: "p \<in> set ?ps" and le: "\<forall>q\<in>set ?ps. ?rk p \<le> ?rk q"
      by simp_all
    from att obtain q where q: "q \<in> set ?ps" "low = rank_of (objects s) q"
      by blast
    with le have "?rk p \<le> rank_value low"
      by simp
    moreover from lb p have "rank_value low \<le> ?rk p"
      by simp
    ultimately have "rank_of (objects s) p = low"
      by (intro rank_value_inj) simp
    with p losers show "p \<in> set (cur_losers s')"
      by simp
  qed
  have c4: "practice \<or> (\<forall>p\<in>set ?ps. current_stack (objects s p) \<noteq> None)
            \<longrightarrow> r = Inr (current_low s', cur_losers s')"
  proof
    assume "practice \<or> (\<forall>p\<in>set ?ps. current_stack (objects s p) \<noteq> None)"
    then have "practice \<or> (\<forall>p\<in>set (cur_losers ?s1). current_stack (objects ?s1 p) \<noteq> None)"
      by auto
    with after have "r = Inr (current_low ?s1, cur_losers ?s1)"
      by blast
    then show "r = Inr (current_low s', cur_losers s')"
      using low losers by simp
  qed
  from c1 c2 c3 c4 show ?thesis
    by blast
qed

theorem losers_hold_minimum_rank_witness:
  "players (table settle_demo) \<noteq> [] \<and>
   players (table settle_demo) = [0, 1, 2] \<and>
   rank_of (objects settle_demo) 0 = Five \<and>
   rank_of (objects settle_demo) 1 = Two \<and>
   rank_of (objects settle_demo) 2 = Two \<and>
   cur_losers settle_demo = [] \<and>
   fst (calculate_results True settle_demo) = Inr (Two, [1, 2]) \<and>
   cur_losers (snd (calculate_results True settle_demo)) = [1, 2] \<and>
   current_low (snd (calculate_results True settle_demo)) = Two"
proof -
  have h1: "players (table settle_demo) \<noteq> []"
    and h2: "\<forall>p\<in>set (players (table settle_demo)). current_card (objects settle_demo p) \<noteq> None"
    and h3: "cur_losers settle_demo = []"
    by (simp_all add: settle_demo_def demo_defs)
  have ev: "calculate_results True settle_demo
      = (Inr (Two, [1, 2]), settle_demo\<lparr>current_low := Two, cur_losers := [1, 2]\<rparr>)"
    by (simp add: settle_demo_def demo_defs calculate_results_def rank_lt_def)
  from losers_hold_minimum_rank [OF h1 h2 h3 ev]
  have "cur_losers (settle_demo\<lparr>current_low := Two, cur_losers := [1, 2]\<rparr>)
          = filter (\<lambda>p. rank_of (objects settle_demo) p
                = current_low (settle_demo\<lparr>current_low := Two, cur_losers := [1, 2]\<rparr>))
              (players (table settle_demo))"
    by blast
  then show ?thesis
    using h1 h3 ev by (simp add: settle_demo_def demo_defs rank_of_def)
qed


text \<open>
  What the stake deduction of \<open>calculate_results\<close> does: \<open>tiegame\<close> starts true and is
  only ever set to false inside the branch where the losers are the whole table, so one
  unit is taken from every loser exactly when the round is not a practice round, the
  losers are all the seated players and one of them has a stack that is not zero. In
  every other case no player changes.
\<close>

lemma tie_scan_all_zero:
  "tie_scan objs ps = (\<forall>p\<in>set ps. current_stack (objs p) = Some 0)"
  by (induction ps) auto

lemma stake_deduction_only_on_full_tie:
  assumes nonempty: "players (table s) \<noteq> []"
    and cards: "\<forall>p\<in>set (players (table s)). current_card (objects s p) \<noteq> None"
    and fresh: "cur_losers s = []"
    and dist: "distinct (players (table s))"
    and stacks: "\<forall>p\<in>set (players (table s)). current_stack (objects s p) = Some (k p)"
    and res: "calculate_results practice s = (r, s')"
  shows "(if \<not> practice \<and> cur_losers s' = players (table s) \<and>
             (\<exists>p\<in>set (players (table s)). k p \<noteq> 0)
          then (\<forall>p\<in>set (players (table s)). current_stack (objects s' p) = Some (k p - 1)) \<and>
               (\<forall>q. q \<notin> set (players (table s)) \<longrightarrow> objects s' q = objects s q)
          else objects s' = objects s)"
proof -
  let ?ps = "players (table s)"
  from calculate_results_losers [OF nonempty cards fresh] obtain low where
    fl: "find_losers ?ps (s\<lparr>current_low := King\<rparr>)
        = (Inr (), s\<lparr>current_low := low,
               cur_losers := filter (\<lambda>p. rank_of (objects s) p = low) ?ps\<rparr>)"
    by blast
  let ?s1 = "s\<lparr>current_low := low, cur_losers := filter (\<lambda>p. rank_of (objects s) p = low) ?ps\<rparr>"
  note after = calculate_results_after_scan [OF fl res]
  have losers: "cur_losers s' = cur_losers ?s1"
    using after by blast
  have ts: "tie_scan (objects ?s1) ?ps = (\<not> (\<exists>p\<in>set ?ps. k p \<noteq> 0))"
    using stacks by (simp add: tie_scan_all_zero)
  show ?thesis
  proof (cases "\<not> practice \<and> cur_losers s' = ?ps \<and> (\<exists>p\<in>set ?ps. k p \<noteq> 0)")
    case True
    then have np: "\<not> practice" and all: "cur_losers ?s1 = ?ps" and nz: "\<not> tie_scan (objects ?s1) ?ps"
      using losers ts by simp_all
    obtain r2 s2 where d: "deduct ?ps ?s1 = (r2, s2)"
      by (cases "deduct ?ps ?s1")
    have "\<forall>p\<in>set ?ps. current_stack (objects ?s1 p) = Some (k p)"
      using stacks by simp
    from deduct_distinct [OF dist this d]
    have r2: "r2 = Inr ()" and dec: "\<forall>p\<in>set ?ps. current_stack (objects s2 p) = Some (k p - 1)"
      by simp_all
    have "calculate_results practice s = (Inr (current_low s2, cur_losers s2), s2)"
      unfolding calculate_results_def fl using np all nz d r2 by simp
    with res have "s' = s2"
      by simp
    with dec deduct_frame [OF d]
    have "(\<forall>p\<in>set ?ps. current_stack (objects s' p) = Some (k p - 1)) \<and>
          (\<forall>q. q \<notin> set ?ps \<longrightarrow> objects s' q = objects s q)"
      by simp
    then show ?thesis
      unfolding if_P [OF True] .
  next
    case False
    then have "practice \<or> cur_losers ?s1 \<noteq> players (table ?s1) \<or> tie_scan (objects ?s1) (cur_losers ?s1)"
      using losers ts by auto
    then have "calculate_results practice s = (Inr (current_low ?s1, cur_losers ?s1), ?s1)"
      unfolding calculate_results_def fl by auto
    with res have "s' = ?s1"
      by simp
    then have "objects s' = objects s"
      by simp
    then show ?thesis
      unfolding if_not_P [OF False] .
  qed
qed

text \<open>
  C1 at a round that is not a practice round, heads-up, a Two against a King, both
  stacks 4: the only loser is seat 0, the losers are not the whole table, and the stack
  of the loser is still 4 after \<open>calculate_results\<close>.
\<close>

theorem single_loser_keeps_stack:
  "players (table showdown_demo) = [0, 1] \<and>
   current_card (objects showdown_demo 0) = Some (Card Hearts Two) \<and>
   current_card (objects showdown_demo 1) = Some (Card Spades King) \<and>
   current_stack (objects showdown_demo 0) = Some 4 \<and>
   current_stack (objects showdown_demo 1) = Some 4 \<and>
   calculate_results False showdown_demo
     = (Inr (Two, [0]), showdown_demo\<lparr>current_low := Two, cur_losers := [0]\<rparr>) \<and>
   current_stack (objects (snd (calculate_results False showdown_demo)) 0) = Some 4"
  by (simp add: showdown_demo_def heads_up_def demo_defs calculate_results_def rank_lt_def)


section \<open>The closed system of cards\<close>

lemma hand_simps [simp]: "hand None = {#}" "hand (Some c) = {#c#}"
  by (simp_all add: hand_def)









lemma discard_conserves:
  "discard (pl, d) = (r, (pl', d')) \<Longrightarrow>
   hand (current_card pl') + mset d' = hand (current_card pl) + mset d"
  by (auto simp: return_card_def split: option.splits if_splits)




































section \<open>One player on two seats\<close>











end
